theory Spec2Isabelle
  imports Complex_Main
begin

unbundle bit_operations_syntax

section \<open>Strings of the server\<close>

text \<open>
  The server (\<^verbatim>\<open>server.js\<close>) works on JavaScript strings. A string is modelled as a
  \<^typ>\<open>string\<close>, each \<^typ>\<open>char\<close> being one code unit in the range U+0000..U+00FF.
  The regular expression class \<^verbatim>\<open>\s\<close> and \<^verbatim>\<open>String.prototype.trim\<close> use the same set of
  white space characters; in the modelled range these are TAB, LF, VT, FF, CR, SPACE and
  NO-BREAK SPACE.
\<close>

abbreviation NL :: char where "NL \<equiv> CHR 0x0A"
abbreviation DQ :: char where "DQ \<equiv> CHR 0x22"
abbreviation BSL :: char where "BSL \<equiv> CHR 0x5C"

definition is_space :: "char \<Rightarrow> bool" where
  "is_space c \<longleftrightarrow> c \<in> {CHR 0x09, CHR 0x0A, CHR 0x0B, CHR 0x0C, CHR 0x0D, CHR 0x20, CHR 0xA0}"

text \<open>\<^verbatim>\<open>s.trim()\<close>: white space removed at both ends.\<close>

definition trim :: "string \<Rightarrow> string" where
  "trim s = rev (dropWhile is_space (rev (dropWhile is_space s)))"

text \<open>
  \<^verbatim>\<open>s.split(/\s+/)\<close>: the scan keeps the text since the last separator in \<open>acc\<close>
  (reversed); a run of white space closes the current piece, also an empty one, and the
  end of the string closes the last piece.
\<close>

function split_ws_from :: "string \<Rightarrow> string \<Rightarrow> string list" where
  "split_ws_from acc [] = [rev acc]"
| "split_ws_from acc (c # cs) =
     (if is_space c then rev acc # split_ws_from [] (dropWhile is_space cs)
      else split_ws_from (c # acc) cs)"
  by pat_completeness auto
termination
  by (relation "measure (\<lambda>(acc, s). length s)")
     (auto intro: le_imp_less_Suc length_dropWhile_le)

definition split_ws :: "string \<Rightarrow> string list" where
  "split_ws s = split_ws_from [] s"

text \<open>\<^verbatim>\<open>s.split(/\s+/).filter(Boolean).length\<close>: the number of non-empty pieces.\<close>

definition word_count :: "string \<Rightarrow> int" where
  "word_count s = int (length (filter (\<lambda>w. w \<noteq> []) (split_ws s)))"

text \<open>\<^verbatim>\<open>xs.join(sep)\<close>.\<close>

fun join :: "string \<Rightarrow> string list \<Rightarrow> string" where
  "join sep [] = []"
| "join sep [x] = x"
| "join sep (x # y # ys) = x @ sep @ join sep (y # ys)"

text \<open>
  \<^verbatim>\<open>xs.slice(start)\<close>: a negative start counts from the end and is clamped at the
  beginning; a start beyond the end gives the empty array. \<^verbatim>\<open>slice(-0)\<close> is
  \<^verbatim>\<open>slice(0)\<close>, the whole array.
\<close>

definition slice_from :: "int \<Rightarrow> 'a list \<Rightarrow> 'a list" where
  "slice_from start xs =
     (let len = int (length xs);
          k = (if start < 0 then max (len + start) 0 else min start len)
      in drop (nat k) xs)"

section \<open>The chunker\<close>

text \<open>
  \<^verbatim>\<open>md.split(/\n(?=#)|\n{2,}/g)\<close>. At each position the first alternative is tried
  first: a line feed followed by \<^verbatim>\<open>#\<close> is a separator of length one (the \<^verbatim>\<open>#\<close> is
  only looked at). Otherwise a run of two or more line feeds is a separator, taken
  whole. \<open>sep_len\<close> is the length of the separator that starts the string, 0 when there
  is none.
\<close>

fun sep_len :: "string \<Rightarrow> nat" where
  "sep_len (c # d # ds) =
     (if c = NL \<and> d = CHR ''#'' then 1
      else if c = NL \<and> d = NL then 2 + length (takeWhile (\<lambda>x. x = NL) ds)
      else 0)"
| "sep_len _ = 0"

function split_parts_from :: "string \<Rightarrow> string \<Rightarrow> string list" where
  "split_parts_from acc [] = [rev acc]"
| "split_parts_from acc (c # cs) =
     (if sep_len (c # cs) > 0
      then rev acc # split_parts_from [] (drop (sep_len (c # cs)) (c # cs))
      else split_parts_from (c # acc) cs)"
  by pat_completeness auto
termination
  by (relation "measure (\<lambda>(acc, s). length s)") auto

definition split_parts :: "string \<Rightarrow> string list" where
  "split_parts md = split_parts_from [] md"

record opts =
  target_words :: int
  overlap_words :: int

text \<open>The variables of \<^verbatim>\<open>chunkMarkdown\<close>: \<^verbatim>\<open>chunks\<close>, \<^verbatim>\<open>cur\<close> and \<^verbatim>\<open>curWords\<close>.\<close>

record buffer =
  chunks :: "(string \<times> int) list"
  cur :: string
  curWords :: int

definition pushCur :: "buffer \<Rightarrow> buffer" where
  "pushCur b =
     \<lparr>chunks = (if trim (cur b) \<noteq> [] then chunks b @ [(trim (cur b), curWords b)]
                else chunks b),
      cur = [], curWords = 0\<rparr>"

text \<open>
  One round of the loop over the parts. In the first branch \<^verbatim>\<open>pushCur()\<close> runs before
  \<^verbatim>\<open>cur.split(/\s+/)\<close>, so the overlap is computed from the buffer that \<^verbatim>\<open>pushCur\<close>
  has just left.
\<close>

definition chunk_step :: "opts \<Rightarrow> buffer \<Rightarrow> string \<Rightarrow> buffer" where
  "chunk_step opt b p =
     (let w = word_count p in
      if curWords b + w > target_words opt \<and> curWords b > 0 then
        (let b1 = pushCur b;
             curWordsArr = split_ws (cur b1);
             overlap = join '' '' (slice_from (- overlap_words opt) curWordsArr)
         in b1\<lparr>cur := overlap @ [NL, NL] @ p, curWords := word_count overlap + w\<rparr>)
      else b\<lparr>cur := cur b @ [NL, NL] @ p, curWords := curWords b + w\<rparr>)"

record chunk =
  chunk_index :: nat
  chunk_text :: string
  approx_words :: int

definition chunkMarkdown :: "string \<Rightarrow> opts \<Rightarrow> chunk list" where
  "chunkMarkdown md opt =
     (let b = pushCur (foldl (chunk_step opt) \<lparr>chunks = [], cur = [], curWords = 0\<rparr>
                         (split_parts md))
      in map (\<lambda>(i, c). \<lparr>chunk_index = i, chunk_text = fst c, approx_words = snd c\<rparr>)
             (enumerate 0 (chunks b)))"

section \<open>The frontmatter\<close>

record meta =
  title :: string
  url :: string
  domain :: string
  crawled_at :: string
  content_hash :: string
  excerpt :: string

text \<open>
  \<^verbatim>\<open>(s || '').replace(/"/g, '\\"').replace(/\n/g, ' ')\<close>: first every double quote gets a
  backslash in front, then every line feed becomes a space.
\<close>

definition escape :: "string \<Rightarrow> string" where
  "escape s =
     map (\<lambda>c. if c = NL then CHR '' '' else c)
         (concat (map (\<lambda>c. if c = DQ then [BSL, DQ] else [c]) s))"

definition quoted :: "string \<Rightarrow> string" where
  "quoted s = [DQ] @ s @ [DQ]"

text \<open>
  \<^verbatim>\<open>addFrontmatter(md, meta)\<close>: the nine array elements joined by line feeds, then the
  body. Only \<^verbatim>\<open>title\<close> and \<^verbatim>\<open>excerpt\<close> go through \<^verbatim>\<open>escape\<close>.
\<close>

definition addFrontmatter :: "string \<Rightarrow> meta \<Rightarrow> string" where
  "addFrontmatter md m =
     join [NL]
       [''---'',
        ''title: '' @ quoted (escape (title m)),
        ''url: '' @ quoted (url m),
        ''domain: '' @ quoted (domain m),
        ''crawled_at: '' @ quoted (crawled_at m),
        ''content_hash: '' @ quoted (content_hash m),
        ''excerpt: '' @ quoted (escape (excerpt m)),
        ''---'',
        []]
     @ md"

section \<open>SHA-256\<close>

text \<open>
  \<^verbatim>\<open>sha256hex(s)\<close> is \<^verbatim>\<open>crypto.createHash('sha256').update(s, 'utf8').digest('hex')\<close>.
  The digest is Node's; it is written here after FIPS 180-4, on 32-bit words kept as
  integers in \<open>0 ..< 2 ^ 32\<close> with the wrap-around of each addition written out.
  The round constants and the initial hash value are given in decimal.
\<close>

type_synonym w32 = int

definition add32 :: "w32 \<Rightarrow> w32 \<Rightarrow> w32" where
  "add32 x y = (x + y) mod 4294967296"

definition rotr :: "nat \<Rightarrow> w32 \<Rightarrow> w32" where
  "rotr n x = x div 2 ^ n + (x mod 2 ^ n) * 2 ^ (32 - n)"

definition Ch :: "w32 \<Rightarrow> w32 \<Rightarrow> w32 \<Rightarrow> w32" where
  "Ch x y z = (x AND y) XOR ((4294967295 - x) AND z)"

definition Maj :: "w32 \<Rightarrow> w32 \<Rightarrow> w32 \<Rightarrow> w32" where
  "Maj x y z = (x AND y) XOR (x AND z) XOR (y AND z)"

definition bsig0 :: "w32 \<Rightarrow> w32" where
  "bsig0 x = rotr 2 x XOR rotr 13 x XOR rotr 22 x"

definition bsig1 :: "w32 \<Rightarrow> w32" where
  "bsig1 x = rotr 6 x XOR rotr 11 x XOR rotr 25 x"

definition ssig0 :: "w32 \<Rightarrow> w32" where
  "ssig0 x = rotr 7 x XOR rotr 18 x XOR x div 2 ^ 3"

definition ssig1 :: "w32 \<Rightarrow> w32" where
  "ssig1 x = rotr 17 x XOR rotr 19 x XOR x div 2 ^ 10"

definition K256 :: "w32 list" where
  "K256 =
    [1116352408, 1899447441, 3049323471, 3921009573, 961987163, 1508970993,
     2453635748, 2870763221, 3624381080, 310598401, 607225278, 1426881987,
     1925078388, 2162078206, 2614888103, 3248222580, 3835390401, 4022224774,
     264347078, 604807628, 770255983, 1249150122, 1555081692, 1996064986,
     2554220882, 2821834349, 2952996808, 3210313671, 3336571891, 3584528711,
     113926993, 338241895, 666307205, 773529912, 1294757372, 1396182291,
     1695183700, 1986661051, 2177026350, 2456956037, 2730485921, 2820302411,
     3259730800, 3345764771, 3516065817, 3600352804, 4094571909, 275423344,
     430227734, 506948616, 659060556, 883997877, 958139571, 1322822218,
     1537002063, 1747873779, 1955562222, 2024104815, 2227730452, 2361852424,
     2428436474, 2756734187, 3204031479, 3329325298]"

definition H256 :: "w32 list" where
  "H256 = [1779033703, 3144134277, 1013904242, 2773480762,
           1359893119, 2600822924, 528734635, 1541459225]"

text \<open>The message schedule is kept newest word first: \<open>ws = [W(t-1), W(t-2), ...]\<close>.\<close>

definition next_w :: "w32 list \<Rightarrow> w32" where
  "next_w ws = add32 (add32 (add32 (ssig1 (ws ! 1)) (ws ! 6)) (ssig0 (ws ! 14))) (ws ! 15)"

fun schedule :: "nat \<Rightarrow> w32 list \<Rightarrow> w32 list" where
  "schedule 0 ws = ws"
| "schedule (Suc n) ws = schedule n (next_w ws # ws)"

definition T1 :: "w32 \<Rightarrow> w32 \<Rightarrow> w32 \<Rightarrow> w32 \<Rightarrow> w32 \<Rightarrow> w32 \<Rightarrow> w32" where
  "T1 h e f g k w = add32 (add32 (add32 (add32 h (bsig1 e)) (Ch e f g)) k) w"

definition T2 :: "w32 \<Rightarrow> w32 \<Rightarrow> w32 \<Rightarrow> w32" where
  "T2 a b c = add32 (bsig0 a) (Maj a b c)"

text \<open>The working variables \<open>a .. h\<close> are the list \<open>s\<close>, in this order.\<close>

definition rotate_in :: "w32 list \<Rightarrow> w32 \<Rightarrow> w32 \<Rightarrow> w32 list" where
  "rotate_in s t1 t2 =
     [add32 t1 t2, s ! 0, s ! 1, s ! 2, add32 (s ! 3) t1, s ! 4, s ! 5, s ! 6]"

definition sha_round :: "w32 list \<Rightarrow> w32 \<times> w32 \<Rightarrow> w32 list" where
  "sha_round s kw =
     rotate_in s (T1 (s ! 7) (s ! 4) (s ! 5) (s ! 6) (fst kw) (snd kw))
                 (T2 (s ! 0) (s ! 1) (s ! 2))"

definition compress :: "w32 list \<Rightarrow> w32 list \<Rightarrow> w32 list" where
  "compress hs blk =
     map2 add32 hs (foldl sha_round hs (zip K256 (rev (schedule 48 (rev blk)))))"

fun be_words :: "int list \<Rightarrow> w32 list" where
  "be_words (a # b # c # d # bs) = (((a * 256 + b) * 256 + c) * 256 + d) # be_words bs"
| "be_words _ = []"

fun be_bytes :: "nat \<Rightarrow> int \<Rightarrow> int list" where
  "be_bytes 0 n = []"
| "be_bytes (Suc k) n = be_bytes k (n div 256) @ [n mod 256]"

definition pad :: "int list \<Rightarrow> int list" where
  "pad bs = bs @ [128] @ replicate ((119 - length bs mod 64) mod 64) 0
               @ be_bytes 8 (8 * int (length bs))"

fun blocks :: "w32 list \<Rightarrow> w32 list \<Rightarrow> w32 list" where
  "blocks hs ws =
     (if length ws < 16 then hs else blocks (compress hs (take 16 ws)) (drop 16 ws))"

declare blocks.simps [simp del]

definition hexdigit :: "int \<Rightarrow> char" where
  "hexdigit n = ''0123456789abcdef'' ! nat n"

definition hex_byte :: "int \<Rightarrow> string" where
  "hex_byte n = [hexdigit (n div 16), hexdigit (n mod 16)]"

definition hex_word :: "w32 \<Rightarrow> string" where
  "hex_word w = concat (map hex_byte (be_bytes 4 w))"

text \<open>UTF-8 of a code unit below U+0100: one byte below U+0080, two bytes from there.\<close>

definition utf8_unit :: "char \<Rightarrow> int list" where
  "utf8_unit c = (if of_char c < (128::int) then [of_char c]
                  else [192 + of_char c div 64, 128 + of_char c mod 64])"

definition utf8 :: "string \<Rightarrow> int list" where
  "utf8 s = concat (map utf8_unit s)"

definition sha256hex :: "string \<Rightarrow> string" where
  "sha256hex s = concat (map hex_word (blocks H256 (be_words (pad (utf8 s)))))"

section \<open>Numbers and query parameters\<close>

text \<open>
  The server's numbers are doubles. \<^verbatim>\<open>target_words\<close> only ever holds an integer, which
  is modelled exactly as an \<^typ>\<open>int\<close>; the two agree below \<open>2 ^ 53\<close>.
\<close>

definition is_digit :: "char \<Rightarrow> bool" where
  "is_digit c \<longleftrightarrow> (48::nat) \<le> of_char c \<and> of_char c \<le> (57::nat)"

definition dec_value :: "string \<Rightarrow> nat" where
  "dec_value ds = foldl (\<lambda>n c. 10 * n + (of_char c - 48)) 0 ds"

text \<open>
  \<^verbatim>\<open>parseInt(s, 10)\<close>: leading white space is skipped, one sign is read, then the longest
  run of decimal digits; \<open>None\<close> is \<^verbatim>\<open>NaN\<close>.
\<close>

definition parseInt :: "string \<Rightarrow> int option" where
  "parseInt s =
     (let t = dropWhile is_space s;
          neg = (t \<noteq> [] \<and> hd t = CHR ''-'');
          u = (if t \<noteq> [] \<and> (hd t = CHR ''-'' \<or> hd t = CHR ''+'') then tl t else t);
          ds = takeWhile is_digit u
      in if ds = [] then None
         else Some (if neg then - int (dec_value ds) else int (dec_value ds)))"

text \<open>\<^verbatim>\<open>'' + n\<close> for an integer \<open>n\<close>: its decimal digits, with a minus sign when negative.\<close>

fun digits :: "nat \<Rightarrow> string" where
  "digits n = (if n < 10 then [char_of (48 + n)]
               else digits (n div 10) @ [char_of (48 + n mod 10)])"

declare digits.simps [simp del]

definition string_of_int :: "int \<Rightarrow> string" where
  "string_of_int n = (if n < 0 then ''-'' @ digits (nat (- n)) else digits (nat n))"

text \<open>\<^verbatim>\<open>toLowerCase()\<close> on a code unit below U+0100.\<close>

definition to_lower :: "char \<Rightarrow> char" where
  "to_lower c =
     (let n = (of_char c :: nat)
      in if (65 \<le> n \<and> n \<le> 90) \<or> (192 \<le> n \<and> n \<le> 222 \<and> n \<noteq> 215)
         then char_of (n + 32) else c)"

text \<open>
  A query parameter is absent (\<open>None\<close>) or a string. \<^verbatim>\<open>req.query.x || d\<close> takes the
  default for an absent and for an empty parameter.
\<close>

record request =
  q_url :: "string option"
  q_render :: "string option"
  q_target_words :: "string option"
  q_raw :: "string option"

definition or_default :: "string option \<Rightarrow> string \<Rightarrow> string" where
  "or_default q d = (case q of None \<Rightarrow> d | Some v \<Rightarrow> if v = [] then d else v)"

definition render_of :: "request \<Rightarrow> bool" where
  "render_of req \<longleftrightarrow> map to_lower (or_default (q_render req) ''true'') \<noteq> ''false''"

definition target_words_of :: "request \<Rightarrow> int" where
  "target_words_of req =
     (case parseInt (or_default (q_target_words req) ''1000'') of
        None \<Rightarrow> 1000
      | Some n \<Rightarrow> if n = 0 then 1000 else n)"

definition raw_of :: "request \<Rightarrow> bool" where
  "raw_of req \<longleftrightarrow> map to_lower (or_default (q_raw req) ''false'') = ''true''"

section \<open>The request handler\<close>

text \<open>
  An article as \<^verbatim>\<open>Readability.parse()\<close> returns it. The handler reads each field
  only through \<^verbatim>\<open>x || ''\<close> or \<^verbatim>\<open>!x\<close>, so an absent field is the empty string.
\<close>

record article =
  art_title :: string
  content :: string
  art_excerpt :: string

record fetched =
  html :: string
  finalUrl :: string
  status :: int

record result =
  r_id :: string
  r_meta :: meta
  r_md :: string
  r_chunks :: "chunk list"
  r_fetched_status :: int

record cache_entry =
  cached_json :: result
  cached_md :: string

text \<open>A cache file holds an entry, or something \<^verbatim>\<open>JSON.parse\<close> rejects.\<close>

datatype cache_file = Entry cache_entry | Unreadable

datatype response = Json int result | Markdown int string | Error int string

fun status_of :: "response \<Rightarrow> int" where
  "status_of (Json c _) = c"
| "status_of (Markdown c _) = c"
| "status_of (Error c _) = c"

text \<open>
  What the handler calls outside this file: the URL parser (\<open>hostname\<close> gives the host
  name, \<open>None\<close> when \<^verbatim>\<open>new URL\<close> throws), the robots file for a URL (\<open>None\<close> when
  \<^verbatim>\<open>fetchRobotsTxt\<close> returns null; otherwise \<^verbatim>\<open>isAllowed\<close> by user agent), the page
  fetcher, Readability, the JSDOM document of the fallback, Turndown, the clock and the
  outcome of writing a cache file. \<open>Inl\<close> is a thrown error with its message.
\<close>

record env =
  hostname :: "string \<Rightarrow> string option"
  fetchRobotsTxt :: "string \<Rightarrow> (string \<Rightarrow> bool) option"
  fetchPage :: "string \<Rightarrow> bool \<Rightarrow> string + fetched"
  extractMain :: "string \<Rightarrow> string \<Rightarrow> string + article option"
  document_title :: "string \<Rightarrow> string"
  body_innerHTML :: "string \<Rightarrow> string option"
  htmlToMarkdown :: "string \<Rightarrow> string"
  isoNow :: string
  write_ok :: "string \<Rightarrow> bool"

text \<open>The cache directory, and the calls of \<^verbatim>\<open>fetchPage\<close> made so far.\<close>

record server =
  cache :: "string \<rightharpoonup> cache_file"
  fetch_log :: "(string \<times> bool) list"

definition politeToCrawl :: "env \<Rightarrow> string \<Rightarrow> bool" where
  "politeToCrawl e u =
     (case fetchRobotsTxt e u of
        None \<Rightarrow> True
      | Some rp \<Rightarrow> rp ''site2md-api'' \<or> rp ''*'')"

definition cacheGet :: "server \<Rightarrow> string \<Rightarrow> cache_entry option" where
  "cacheGet s key = (case cache s key of Some (Entry c) \<Rightarrow> Some c | _ \<Rightarrow> None)"

definition cacheSet :: "env \<Rightarrow> string \<Rightarrow> cache_entry \<Rightarrow> server \<Rightarrow> server" where
  "cacheSet e key c s = (if write_ok e key then s\<lparr>cache := (cache s)(key \<mapsto> Entry c)\<rparr> else s)"

definition cacheKey :: "string \<Rightarrow> bool \<Rightarrow> int \<Rightarrow> string" where
  "cacheKey u render tw =
     sha256hex (u @ ''|'' @ (if render then ''r'' else ''n'') @ ''|'' @ string_of_int tw)"

text \<open>\<^verbatim>\<open>fetched.finalUrl || url\<close>.\<close>

definition final_or :: "fetched \<Rightarrow> string \<Rightarrow> string" where
  "final_or f u = (if finalUrl f \<noteq> [] then finalUrl f else u)"

text \<open>
  A variable is declared with \<^verbatim>\<open>const\<close> or with \<^verbatim>\<open>let\<close>. Assigning to a \<^verbatim>\<open>const\<close>
  throws a TypeError once the right-hand side has been evaluated.
\<close>

datatype 'a binding = ConstBinding 'a | LetBinding 'a

fun bound :: "'a binding \<Rightarrow> 'a" where
  "bound (ConstBinding v) = v"
| "bound (LetBinding v) = v"

fun assign :: "'a binding \<Rightarrow> 'a \<Rightarrow> string + 'a binding" where
  "assign (ConstBinding _) v = Inl ''Assignment to constant variable.''"
| "assign (LetBinding _) v = Inr (LetBinding v)"

definition has_content :: "article option \<Rightarrow> bool" where
  "has_content a = (case a of None \<Rightarrow> False | Some x \<Rightarrow> content x \<noteq> [])"

text \<open>
  Lines 263 to 277: \<^verbatim>\<open>const article = extractMain(...)\<close>, then the fallback, which
  assigns to \<^verbatim>\<open>article\<close>. The outcome is a thrown error (\<open>Inl\<close>), a response sent at once
  (\<open>Inr (Inl r)\<close>) or the article to go on with.
\<close>

definition extract_article :: "env \<Rightarrow> fetched \<Rightarrow> string \<Rightarrow> string + (response + article)" where
  "extract_article e f u =
     (case extractMain e (html f) (final_or f u) of
        Inl err \<Rightarrow> Inl err
      | Inr a \<Rightarrow>
          (let article = ConstBinding a in
           if \<not> has_content (bound article) then
             (let fallback = \<lparr>art_title = document_title e (html f),
                              content = (case body_innerHTML e (html f) of
                                           Some b \<Rightarrow> b | None \<Rightarrow> []),
                              art_excerpt = []\<rparr>
              in case assign article (Some fallback) of
                   Inl err \<Rightarrow> Inl err
                 | Inr article' \<Rightarrow>
                     (case bound article' of
                        Some x \<Rightarrow> if content x = []
                                  then Inr (Inl (Error 422 ''Could not extract content''))
                                  else Inr (Inr x)
                      | None \<Rightarrow> Inr (Inl (Error 422 ''Could not extract content''))))
           else (case bound article of
                   Some x \<Rightarrow> Inr (Inr x)
                 | None \<Rightarrow> Inr (Inl (Error 422 ''Could not extract content'')))))"

text \<open>
  The options of the chunker call on lines 290 to 293:
  \<^verbatim>\<open>overlap_words: Math.min(250, Math.floor(target_words * 0.2))\<close>.
\<close>

definition chunk_opts :: "int \<Rightarrow> opts" where
  "chunk_opts tw =
     \<lparr>target_words = tw, overlap_words = min 250 \<lfloor>real_of_int tw * 0.2\<rfloor>\<rparr>"

text \<open>Lines 279 to 301. \<^verbatim>\<open>new URL(...)\<close> on line 284 may throw.\<close>

definition build_result :: "env \<Rightarrow> fetched \<Rightarrow> string \<Rightarrow> int \<Rightarrow> article \<Rightarrow> string + result" where
  "build_result e f u tw a =
     (let mdContent = htmlToMarkdown e (content a);
          contentHash = sha256hex mdContent
      in case hostname e (final_or f u) of
           None \<Rightarrow> Inl ''Invalid URL''
         | Some host \<Rightarrow>
             (let m = \<lparr>title = art_title a, url = final_or f u, domain = host,
                       crawled_at = isoNow e, content_hash = contentHash,
                       excerpt = art_excerpt a\<rparr>;
                  mdWithFM = addFrontmatter mdContent m;
                  cs = chunkMarkdown mdWithFM (chunk_opts tw)
              in Inr \<lparr>r_id = sha256hex (url m @ ''|'' @ content_hash m),
                      r_meta = m, r_md = mdWithFM, r_chunks = cs,
                      r_fetched_status = (if status f = 0 then 200 else status f)\<rparr>))"

definition respond :: "bool \<Rightarrow> cache_entry \<Rightarrow> response" where
  "respond raw c = (if raw then Markdown 200 (cached_md c) else Json 200 (cached_json c))"

text \<open>The body of the \<^verbatim>\<open>try\<close> block, lines 243 to 312.\<close>

definition scrape ::
  "env \<Rightarrow> string \<Rightarrow> bool \<Rightarrow> int \<Rightarrow> bool \<Rightarrow> server \<Rightarrow> (string + response) \<times> server" where
  "scrape e u render tw raw s =
     (let key = cacheKey u render tw in
      case cacheGet s key of
        Some cached \<Rightarrow> (Inr (respond raw cached), s)
      | None \<Rightarrow>
          (let s1 = s\<lparr>fetch_log := fetch_log s @ [(u, render)]\<rparr> in
           case fetchPage e u render of
             Inl err \<Rightarrow> (Inl err, s1)
           | Inr f \<Rightarrow>
               (case extract_article e f u of
                  Inl err \<Rightarrow> (Inl err, s1)
                | Inr (Inl r) \<Rightarrow> (Inr r, s1)
                | Inr (Inr a) \<Rightarrow>
                    (case build_result e f u tw a of
                       Inl err \<Rightarrow> (Inl err, s1)
                     | Inr resultJson \<Rightarrow>
                         (let c = \<lparr>cached_json = resultJson, cached_md = r_md resultJson\<rparr>
                          in (Inr (respond raw c), cacheSet e key c s1))))))"

text \<open>The route \<^verbatim>\<open>GET /\<close>, lines 213 to 317.\<close>

definition handler :: "env \<Rightarrow> request \<Rightarrow> server \<Rightarrow> response \<times> server" where
  "handler e req s =
     (let u = or_default (q_url req) [] in
      if u = [] then
        (Error 400 ''Missing url query parameter. e.g. /?url=https://example.com'', s)
      else if hostname e u = None then (Error 400 ''Invalid URL'', s)
      else if \<not> politeToCrawl e u then (Error 403 ''Blocked by robots.txt'', s)
      else
        (case scrape e u (render_of req) (target_words_of req) (raw_of req) s of
           (Inl err, s') \<Rightarrow> (Error 500 err, s')
         | (Inr r, s') \<Rightarrow> (r, s')))"

section \<open>The composer as the specification words it\<close>

text \<open>
  The specification's FrontmatterComposer, written from its words for comparison with
  \<^const>\<open>addFrontmatter\<close>: all six fields are escaped, and the block is followed by a
  blank line and then the body.
\<close>

definition compose_spec :: "string \<Rightarrow> meta \<Rightarrow> string" where
  "compose_spec body m =
     join [NL]
       [''---'',
        ''title: '' @ quoted (escape (title m)),
        ''url: '' @ quoted (escape (url m)),
        ''domain: '' @ quoted (escape (domain m)),
        ''crawled_at: '' @ quoted (escape (crawled_at m)),
        ''content_hash: '' @ quoted (escape (content_hash m)),
        ''excerpt: '' @ quoted (escape (excerpt m)),
        ''---'',
        [],
        []]
     @ body"

section \<open>Sample requests and pages\<close>

text \<open>
  A page at \<^verbatim>\<open>http://a.test/\<close> whose article Readability finds, a site without a
  robots file, and a request for that page with every option left at its default.
\<close>

definition sample_url :: string where
  "sample_url = ''http://a.test/''"

definition sample_page :: fetched where
  "sample_page =
     \<lparr>html = ''<html><head><title>T</title></head><body><p>Hello world</p></body></html>'',
      finalUrl = ''http://a.test/'', status = 200\<rparr>"

definition sample_article :: article where
  "sample_article =
     \<lparr>art_title = ''T'', content = ''<p>Hello world</p>'', art_excerpt = ''Hello world''\<rparr>"

definition sample_env :: env where
  "sample_env =
     \<lparr>hostname = (\<lambda>u. if u = ''http://a.test/'' then Some ''a.test'' else None),
      fetchRobotsTxt = (\<lambda>u. None),
      fetchPage = (\<lambda>u r. Inr sample_page),
      extractMain = (\<lambda>h u. Inr (Some sample_article)),
      document_title = (\<lambda>h. ''T''),
      body_innerHTML = (\<lambda>h. Some ''<p>Hello world</p>''),
      htmlToMarkdown = (\<lambda>h. ''Hello world''),
      isoNow = ''2025-01-01T00:00:00.000Z'',
      write_ok = (\<lambda>k. True)\<rparr>"

definition sample_request :: request where
  "sample_request =
     \<lparr>q_url = Some ''http://a.test/'', q_render = None, q_target_words = None, q_raw = None\<rparr>"

definition empty_server :: server where
  "empty_server = \<lparr>cache = Map.empty, fetch_log = []\<rparr>"

text \<open>
  A page whose body has markup but no text: Readability finds no article in it, and
  the body is there for the fallback.
\<close>

definition no_article_env :: env where
  "no_article_env =
     sample_env\<lparr>fetchPage := (\<lambda>u r. Inr \<lparr>html = ''<html><head><title>T</title></head><body><div><hr></div></body></html>'',
                                          finalUrl = ''http://a.test/'', status = 200\<rparr>),
                extractMain := (\<lambda>h u. Inr None),
                body_innerHTML := (\<lambda>h. Some ''<div><hr></div>''),
                htmlToMarkdown := (\<lambda>h. ''* * *'')\<rparr>"

text \<open>A page with an empty body: no article, and nothing for the fallback either.\<close>

definition empty_page_env :: env where
  "empty_page_env =
     sample_env\<lparr>fetchPage := (\<lambda>u r. Inr \<lparr>html = [], finalUrl = ''http://a.test/'', status = 200\<rparr>),
                extractMain := (\<lambda>h u. Inr None),
                document_title := (\<lambda>h. []),
                body_innerHTML := (\<lambda>h. Some [])\<rparr>"

text \<open>The same site once its robots file disallows every user agent.\<close>

definition blocked_env :: env where
  "blocked_env = sample_env\<lparr>fetchRobotsTxt := (\<lambda>u. Some (\<lambda>agent. False))\<rparr>"

text \<open>The cache entry that a scrape of the sample page writes, and a cache holding it.\<close>

definition sample_entry :: cache_entry where
  "sample_entry =
     (case build_result sample_env sample_page sample_url 1000 sample_article of
        Inr r \<Rightarrow> \<lparr>cached_json = r, cached_md = r_md r\<rparr>
      | Inl err \<Rightarrow> \<lparr>cached_json = undefined, cached_md = err\<rparr>)"


text \<open>The sample site when the cache directory cannot be written.\<close>

definition unwritable_env :: env where
  "unwritable_env = sample_env\<lparr>write_ok := (\<lambda>k. False)\<rparr>"

text \<open>The sample site scraped again at a later time.\<close>

definition later_env :: env where
  "later_env = sample_env\<lparr>isoNow := ''2026-06-30T12:00:00.000Z''\<rparr>"

text \<open>
  The identifier as the specification words it: the fingerprint of the URL followed
  at once by the content hash.
\<close>

definition id_spec :: "meta \<Rightarrow> string" where
  "id_spec m = sha256hex (url m @ content_hash m)"

text \<open>Metadata whose URL carries double quotes, and a title that needs escaping.\<close>

definition quoted_meta :: meta where
  "quoted_meta =
     \<lparr>title = ''a'' @ [DQ] @ ''b'' @ [NL] @ ''c'',
      url = ''http://a.test/?q='' @ [DQ] @ ''x'' @ [DQ],
      domain = ''a.test'',
      crawled_at = ''2025-01-01T00:00:00.000Z'',
      content_hash = ''64ec88ca00b268e5ba1a35678a1b5316d212f4f366b2477232534a8aeca37f3c'',
      excerpt = []\<rparr>"

section \<open>Counting words by their first characters\<close>


section \<open>White space and words\<close>

lemma dropWhile_space_Nil: "(\<forall>c\<in>set (dropWhile is_space s). is_space c) \<longleftrightarrow> (\<forall>c\<in>set s. is_space c)"
  by (induction s) auto

lemma trim_Nil_iff: "trim s = [] \<longleftrightarrow> (\<forall>c\<in>set s. is_space c)"
  by (simp add: trim_def dropWhile_eq_Nil_conv dropWhile_space_Nil)






section \<open>The parts of a document\<close>

lemma sep_run: "\<forall>x\<in>set (take (length (takeWhile (\<lambda>x. x = NL) ds)) ds). x = NL"
proof -
  have "take (length (takeWhile (\<lambda>x. x = NL) ds)) ds = takeWhile (\<lambda>x. x = NL) ds"
    by (rule takeWhile_eq_take [symmetric])
  then show ?thesis by (auto dest: set_takeWhileD)
qed

lemma sep_run_take: "take (sep_len (NL # NL # ds)) (NL # NL # ds) = NL # NL # take (length (takeWhile (\<lambda>x. x = NL) ds)) ds"
  by simp

lemma sep_run_length: "sep_len (NL # NL # ds) \<le> length (NL # NL # ds)"
  by (simp add: length_takeWhile_le)

lemma sep_hash_len: "sep_len (NL # CHR ''#'' # ds) = 1"
  by simp

lemma sep_len_pos: "0 < sep_len (c # d # ds) \<Longrightarrow> c = NL \<and> (d = NL \<or> d = CHR ''#'')"
  by (simp split: if_splits)

lemma sep_len_take:
  assumes "0 < sep_len s"
  shows "sep_len s \<le> length s \<and> (\<forall>c\<in>set (take (sep_len s) s). c = NL)"
proof -
  from assms obtain c d ds where 1: "s = c # d # ds"
    by (cases s rule: sep_len.cases) simp_all
  from assms have c: "c = NL" and d: "d = NL \<or> d = CHR ''#''"
    using sep_len_pos [of c d ds] unfolding 1 by blast+
  show ?thesis
  proof (cases "d = CHR ''#''")
    case True
    then have "s = NL # CHR ''#'' # ds" using 1 c by simp
    then show ?thesis by simp
  next
    case False
    then have s_eq: "s = NL # NL # ds" using 1 c d by simp
    have "set (NL # NL # take (length (takeWhile (\<lambda>x. x = NL) ds)) ds)
            = insert NL (set (take (length (takeWhile (\<lambda>x. x = NL) ds)) ds))"
      by simp
    then have "\<forall>x\<in>set (take (sep_len s) s). x = NL"
      unfolding s_eq sep_run_take using sep_run [of ds] by blast
    moreover have "sep_len s \<le> length s" unfolding s_eq by (rule sep_run_length)
    ultimately show ?thesis by blast
  qed
qed

lemma sep_len_split:
  assumes "0 < sep_len s"
  shows "\<exists>sp. s = sp @ drop (sep_len s) s \<and> sp \<noteq> [] \<and> (\<forall>c\<in>set sp. is_space c)"
proof -
  let ?sp = "take (sep_len s) s"
  have "s = ?sp @ drop (sep_len s) s" by simp
  moreover have "?sp \<noteq> []"
  proof
    assume "?sp = []"
    then have "sep_len s = 0 \<or> s = []" by (simp add: take_eq_Nil)
    with assms show False by auto
  qed
  moreover have "\<forall>c\<in>set ?sp. is_space c"
  proof
    fix c
    assume "c \<in> set ?sp"
    with sep_len_take [OF assms] have "c = NL" by simp
    then show "is_space c" by (simp add: is_space_def)
  qed
  ultimately show ?thesis by (intro exI [of _ ?sp] conjI)
qed




lemma nonspace_split_parts_from:
  "filter (\<lambda>c. \<not> is_space c) (concat (split_parts_from acc s))
     = filter (\<lambda>c. \<not> is_space c) (rev acc @ s)"
proof (induction acc s rule: split_parts_from.induct)
  case (1 acc)
  then show ?case by simp
next
  case (2 acc c cs)
  show ?case
  proof (cases "0 < sep_len (c # cs)")
    case True
    define rest where "rest = drop (sep_len (c # cs)) (c # cs)"
    from True obtain sp where sp: "c # cs = sp @ rest" "\<forall>x\<in>set sp. is_space x"
      using sep_len_split unfolding rest_def by blast
    have "filter (\<lambda>c. \<not> is_space c) (sp @ rest) = filter (\<lambda>c. \<not> is_space c) rest"
      using sp(2) by (simp add: filter_empty_conv)
    then have "filter (\<lambda>c. \<not> is_space c) (c # cs) = filter (\<lambda>c. \<not> is_space c) rest"
      by (simp only: sp(1))
    with True 2 show ?thesis by (simp add: rest_def)
  next
    case False
    with 2 show ?thesis by simp
  qed
qed

lemma blank_iff_filter: "trim s = [] \<longleftrightarrow> filter (\<lambda>c. \<not> is_space c) s = []"
  by (simp add: trim_Nil_iff filter_empty_conv)

lemma blank_split_parts:
  "trim s = [] \<longleftrightarrow> (\<forall>p\<in>set (split_parts s). trim p = [])"
proof -
  have "filter (\<lambda>c. \<not> is_space c) s = [] \<longleftrightarrow>
        filter (\<lambda>c. \<not> is_space c) (concat (split_parts s)) = []"
    using nonspace_split_parts_from [of "[]" s] by (simp add: split_parts_def)
  then show ?thesis
    by (simp add: blank_iff_filter filter_empty_conv)
qed

section \<open>The loop of the chunker\<close>

lemma overlap_empty: "join '' '' (slice_from n (split_ws (cur (pushCur b)))) = []"
  by (simp add: pushCur_def split_ws_def slice_from_def Let_def drop_Cons split: nat.split)

lemma chunk_step_boundary:
  "target_words opt < curWords b + word_count p \<Longrightarrow> 0 < curWords b \<Longrightarrow>
   chunk_step opt b p = (pushCur b)\<lparr>cur := [NL, NL] @ p, curWords := word_count p\<rparr>"
  by (simp add: chunk_step_def Let_def overlap_empty) (simp add: word_count_def split_ws_def)

lemma chunk_step_append:
  "\<not> (target_words opt < curWords b + word_count p \<and> 0 < curWords b) \<Longrightarrow>
   chunk_step opt b p = b\<lparr>cur := cur b @ [NL, NL] @ p, curWords := curWords b + word_count p\<rparr>"
  by (cases "target_words opt < curWords b + word_count p"; cases "0 < curWords b";
      simp add: chunk_step_def Let_def)


lemma trim_append_Nil: "trim (a @ b) = [] \<longleftrightarrow> trim a = [] \<and> trim b = []"
  by (auto simp: trim_Nil_iff)

lemma NL_space: "is_space NL"
  by (simp add: is_space_def)

lemma trim_sep_Nil: "trim (NL # NL # p) = [] \<longleftrightarrow> trim p = []"
  by (simp add: trim_Nil_iff NL_space)




lemma length_chunkMarkdown:
  "length (chunkMarkdown s opt) =
     length (chunks (pushCur (foldl (chunk_step opt) \<lparr>chunks = [], cur = [], curWords = 0\<rparr>
                                (split_parts s))))"
  by (simp add: chunkMarkdown_def Let_def)






lemma split_parts_from_nonempty: "split_parts_from acc s \<noteq> []"
  by (induction acc s rule: split_parts_from.induct) simp_all

lemma split_parts_nonempty: "split_parts s \<noteq> []"
  by (simp add: split_parts_def split_parts_from_nonempty)


lemma push_emits: "chunks b \<noteq> [] \<or> trim (cur b) \<noteq> [] \<Longrightarrow> chunks (pushCur b) \<noteq> []"
  by (auto simp: pushCur_def)

lemma step_emits:
  assumes "chunks b \<noteq> [] \<or> trim (cur b) \<noteq> [] \<or> trim p \<noteq> []"
  shows "chunks (chunk_step opt b p) \<noteq> [] \<or> trim (cur (chunk_step opt b p)) \<noteq> []"
proof (cases "target_words opt < curWords b + word_count p \<and> 0 < curWords b")
  case True
  then have step: "chunk_step opt b p = (pushCur b)\<lparr>cur := [NL, NL] @ p, curWords := word_count p\<rparr>"
    by (simp add: chunk_step_boundary)
  show ?thesis
  proof (cases "trim p = []")
    case True
    with assms have "chunks (pushCur b) \<noteq> []" by (simp add: push_emits)
    then show ?thesis by (simp add: step)
  next
    case False
    then show ?thesis by (simp add: step trim_sep_Nil)
  qed
next
  case False
  then have step: "chunk_step opt b p =
      b\<lparr>cur := cur b @ [NL, NL] @ p, curWords := curWords b + word_count p\<rparr>"
    by (rule chunk_step_append)
  from assms show ?thesis by (auto simp: step trim_append_Nil trim_sep_Nil)
qed

lemma fold_emits:
  "chunks b \<noteq> [] \<or> trim (cur b) \<noteq> [] \<or> (\<exists>p\<in>set ps. trim p \<noteq> []) \<Longrightarrow>
   chunks (foldl (chunk_step opt) b ps) \<noteq> [] \<or> trim (cur (foldl (chunk_step opt) b ps)) \<noteq> []"
proof (induction ps arbitrary: b)
  case Nil
  then show ?case by simp
next
  case (Cons p ps)
  show ?case
  proof (cases "chunks b \<noteq> [] \<or> trim (cur b) \<noteq> [] \<or> trim p \<noteq> []")
    case True
    then have "chunks (chunk_step opt b p) \<noteq> [] \<or> trim (cur (chunk_step opt b p)) \<noteq> []"
      by (rule step_emits)
    then show ?thesis using Cons.IH [of "chunk_step opt b p"] by auto
  next
    case False
    with Cons.prems have "\<exists>q\<in>set ps. trim q \<noteq> []" by auto
    then show ?thesis using Cons.IH [of "chunk_step opt b p"] by auto
  qed
qed

lemma chunkMarkdown_emits:
  assumes "trim s \<noteq> []"
  shows "chunkMarkdown s opt \<noteq> []"
proof -
  let ?init = "\<lparr>chunks = [], cur = [], curWords = 0\<rparr>"
  from assms have "\<exists>p\<in>set (split_parts s). trim p \<noteq> []"
    using blank_split_parts [of s] by blast
  then have "chunks (foldl (chunk_step opt) ?init (split_parts s)) \<noteq> []
           \<or> trim (cur (foldl (chunk_step opt) ?init (split_parts s))) \<noteq> []"
    using fold_emits [of ?init "split_parts s" opt] by blast
  then have "chunks (pushCur (foldl (chunk_step opt) ?init (split_parts s))) \<noteq> []"
    by (rule push_emits)
  then show ?thesis
    using length_chunkMarkdown [of s opt] by auto
qed

lemma cur_chunk_step: "\<exists>pre. cur (chunk_step opt b p) = pre @ [NL, NL] @ p"
proof (cases "target_words opt < curWords b + word_count p \<and> 0 < curWords b")
  case True
  then have "chunk_step opt b p = (pushCur b)\<lparr>cur := [NL, NL] @ p, curWords := word_count p\<rparr>"
    by (simp add: chunk_step_boundary)
  then have "cur (chunk_step opt b p) = [] @ [NL, NL] @ p" by simp
  then show ?thesis by blast
next
  case False
  then have "chunk_step opt b p =
      b\<lparr>cur := cur b @ [NL, NL] @ p, curWords := curWords b + word_count p\<rparr>"
    by (rule chunk_step_append)
  then have "cur (chunk_step opt b p) = cur b @ [NL, NL] @ p" by simp
  then show ?thesis by blast
qed

lemma cur_fold_last:
  assumes "ps \<noteq> []"
  shows "\<exists>pre. cur (foldl (chunk_step opt) b ps) = pre @ [NL, NL] @ last ps"
proof -
  from assms have "ps = butlast ps @ [last ps]" by simp
  then have "foldl (chunk_step opt) b ps
               = chunk_step opt (foldl (chunk_step opt) b (butlast ps)) (last ps)"
    by (metis foldl_append foldl_Cons foldl_Nil)
  then show ?thesis using cur_chunk_step by simp
qed

lemma final_buffer_nonblank:
  assumes "trim (last (split_parts s)) \<noteq> []"
  shows "trim (cur (foldl (chunk_step opt) b (split_parts s))) \<noteq> []"
proof -
  obtain pre where "cur (foldl (chunk_step opt) b (split_parts s))
                      = pre @ [NL, NL] @ last (split_parts s)"
    using cur_fold_last [OF split_parts_nonempty] by blast
  with assms show ?thesis by (simp add: trim_append_Nil trim_sep_Nil)
qed

lemma no_sep_whole:
  "\<forall>k. sep_len (drop k t) = 0 \<Longrightarrow> split_parts_from acc t = [rev acc @ t]"
proof (induction t arbitrary: acc)
  case Nil
  then show ?case by simp
next
  case (Cons c cs)
  from Cons.prems have "sep_len (drop 0 (c # cs)) = 0" by blast
  then have z: "sep_len (c # cs) = 0" by simp
  have "\<forall>k. sep_len (drop k cs) = 0"
  proof
    fix k
    from Cons.prems have "sep_len (drop (Suc k) (c # cs)) = 0" by blast
    then show "sep_len (drop k cs) = 0" by simp
  qed
  then have "split_parts_from (c # acc) cs = [rev (c # acc) @ cs]" by (rule Cons.IH)
  with z show ?case by simp
qed

lemma sep_len_nonspace:
  assumes "\<not> is_space x"
  shows "sep_len (x # t) = 0"
proof -
  have "x \<noteq> NL"
  proof
    assume "x = NL"
    then have "is_space x" by (simp add: is_space_def)
    with assms show False by simp
  qed
  then show ?thesis by (cases t) simp_all
qed

lemma last_part_has:
  assumes x: "\<not> is_space x" and t: "\<forall>k. sep_len (drop k t) = 0"
  shows "x \<in> set (last (split_parts_from acc (r @ x # t)))"
proof (induction "length r" arbitrary: r acc rule: less_induct)
  case less
  show ?case
  proof (cases r)
    case Nil
    have "split_parts_from acc (x # t) = split_parts_from (x # acc) t"
      using sep_len_nonspace [OF x, of t] by simp
    also have "\<dots> = [rev (x # acc) @ t]" using t by (rule no_sep_whole)
    finally show ?thesis using Nil by simp
  next
    case (Cons c r')
    let ?s = "c # r' @ x # t"
    show ?thesis
    proof (cases "0 < sep_len ?s")
      case True
      note tk = sep_len_take [OF True]
      have "sep_len ?s \<le> length r"
      proof (rule ccontr)
        assume "\<not> sep_len ?s \<le> length r"
        then have lt: "length r < sep_len ?s" by simp
        have "?s ! length r = x" using Cons by (simp add: nth_append)
        moreover have "length r < length (take (sep_len ?s) ?s)" using lt tk by simp
        then have "take (sep_len ?s) ?s ! length r \<in> set (take (sep_len ?s) ?s)"
          by (rule nth_mem)
        moreover have "take (sep_len ?s) ?s ! length r = ?s ! length r"
          using lt by simp
        ultimately have "x \<in> set (take (sep_len ?s) ?s)" by simp
        with tk have "x = NL" by blast
        then have "is_space x" by (simp add: is_space_def)
        with x show False by simp
      qed
      moreover have "?s = r @ x # t" using Cons by simp
      ultimately have d: "drop (sep_len ?s) ?s = drop (sep_len ?s) r @ x # t"
        by (simp only: drop_append) simp
      have "length (drop (sep_len ?s) r) < length r" using True Cons by simp
      then have "x \<in> set (last (split_parts_from [] (drop (sep_len ?s) r @ x # t)))"
        by (rule less.hyps)
      with True d show ?thesis
        using Cons by (simp add: split_parts_from_nonempty)
    next
      case False
      have "length r' < length r" using Cons by simp
      then have "x \<in> set (last (split_parts_from (c # acc) (r' @ x # t)))"
        by (rule less.hyps)
      with False show ?thesis using Cons by simp
    qed
  qed
qed

section \<open>Escaping and the layout of the frontmatter\<close>

lemma escape_Nil: "escape [] = []"
  by (simp add: escape_def)

lemma escape_Cons:
  "escape (c # cs) =
     (if c = DQ then [BSL, DQ] else if c = NL then '' '' else [c]) @ escape cs"
  by (simp add: escape_def)

lemma escape_fused:
  "escape s = concat (map (\<lambda>c. if c = DQ then [BSL, DQ] else if c = NL then '' '' else [c]) s)"
  by (induction s) (simp_all add: escape_Nil escape_Cons)

lemma escape_no_NL: "NL \<notin> set (escape s)"
  by (induction s) (simp_all add: escape_Nil escape_Cons)

lemma escape_quotes:
  "i < length (escape s) \<Longrightarrow> escape s ! i = DQ \<Longrightarrow> 0 < i \<and> escape s ! (i - 1) = BSL"
proof (induction s arbitrary: i)
  case Nil
  then show ?case by (simp add: escape_Nil)
next
  case (Cons c cs)
  define pre where "pre = (if c = DQ then [BSL, DQ] else if c = NL then '' '' else [c])"
  have e: "escape (c # cs) = pre @ escape cs" by (simp add: escape_Cons pre_def)
  show ?case
  proof (cases "i < length pre")
    case True
    have "pre ! i = DQ" using Cons.prems(2) True by (simp add: e nth_append)
    with True have "c = DQ \<and> i = 1"
      by (auto simp: pre_def nth_Cons split: if_splits nat.splits)
    then show ?thesis by (simp add: escape_Cons)
  next
    case False
    define j where "j = i - length pre"
    have i: "i = length pre + j" using False by (simp add: j_def)
    have "j < length (escape cs)" using Cons.prems(1) by (simp add: e i)
    moreover have "escape cs ! j = DQ" using Cons.prems(2) by (simp add: e i)
    ultimately have j: "0 < j" "escape cs ! (j - 1) = BSL" using Cons.IH by blast+
    have "(pre @ escape cs) ! (length pre + (j - 1)) = escape cs ! (j - 1)"
      by (rule nth_append_length_plus)
    moreover have "i - 1 = length pre + (j - 1)" using j(1) i by simp
    ultimately show ?thesis using j by (simp add: e i)
  qed
qed

lemma addFrontmatter_layout:
  "addFrontmatter b m =
     ''---'' @ [NL]
     @ ''title: '' @ [DQ] @ escape (title m) @ [DQ, NL]
     @ ''url: '' @ [DQ] @ url m @ [DQ, NL]
     @ ''domain: '' @ [DQ] @ domain m @ [DQ, NL]
     @ ''crawled_at: '' @ [DQ] @ crawled_at m @ [DQ, NL]
     @ ''content_hash: '' @ [DQ] @ content_hash m @ [DQ, NL]
     @ ''excerpt: '' @ [DQ] @ escape (excerpt m) @ [DQ, NL]
     @ ''---'' @ [NL]
     @ b"
  by (simp add: addFrontmatter_def quoted_def)

lemma addFrontmatter_nonblank: "trim (addFrontmatter b m) \<noteq> []"
proof -
  have "CHR ''-'' \<in> set (addFrontmatter b m)" by (simp add: addFrontmatter_layout)
  moreover have "\<not> is_space CHR ''-''" by (simp add: is_space_def)
  ultimately show ?thesis using trim_Nil_iff [of "addFrontmatter b m"] by blast
qed

lemma lone_NL_no_sep: "\<forall>k. sep_len (drop k [NL]) = 0"
proof
  fix k
  show "sep_len (drop k [NL]) = 0" by (cases k) simp_all
qed

lemma Nil_no_sep: "\<forall>k. sep_len (drop k []) = 0"
  by simp

lemma frontmatter_last_part:
  assumes "b = [] \<or> \<not> is_space (last b)"
  shows "trim (last (split_parts (addFrontmatter b m))) \<noteq> []"
proof -
  have "\<exists>r x t. addFrontmatter b m = r @ x # t \<and> \<not> is_space x \<and> (\<forall>k. sep_len (drop k t) = 0)"
  proof (cases "b = []")
    case True
    define r where "r = ''---'' @ [NL]
     @ ''title: '' @ [DQ] @ escape (title m) @ [DQ, NL]
     @ ''url: '' @ [DQ] @ url m @ [DQ, NL]
     @ ''domain: '' @ [DQ] @ domain m @ [DQ, NL]
     @ ''crawled_at: '' @ [DQ] @ crawled_at m @ [DQ, NL]
     @ ''content_hash: '' @ [DQ] @ content_hash m @ [DQ, NL]
     @ ''excerpt: '' @ [DQ] @ escape (excerpt m) @ [DQ, NL]
     @ ''--''"
    have "addFrontmatter b m = r @ CHR ''-'' # [NL]"
      by (simp add: addFrontmatter_layout r_def True)
    moreover have "\<not> is_space CHR ''-''" by (simp add: is_space_def)
    ultimately show ?thesis using lone_NL_no_sep by blast
  next
    case False
    with assms have x: "\<not> is_space (last b)" by blast
    from False have "b = butlast b @ [last b]" by simp
    then have "addFrontmatter b m = (addFrontmatter [] m @ butlast b) @ last b # []"
      by (metis addFrontmatter_def append_Nil2 append_assoc append_Cons append_Nil)
    with x Nil_no_sep show ?thesis by blast
  qed
  then obtain r x t where d: "addFrontmatter b m = r @ x # t" "\<not> is_space x"
      "\<forall>k. sep_len (drop k t) = 0"
    by blast
  from last_part_has [OF d(2) d(3), of "[]" r]
  have "x \<in> set (last (split_parts (addFrontmatter b m)))"
    by (simp add: split_parts_def d(1))
  with d(2) show ?thesis
    using trim_Nil_iff [of "last (split_parts (addFrontmatter b m))"] by blast
qed

section \<open>Evaluating the digest\<close>

lemma schedule_numeral: "schedule (numeral k) ws = schedule (pred_numeral k) (next_w ws # ws)"
  by (simp add: numeral_eq_Suc)

lemma be_bytes_numeral:
  "be_bytes (numeral k) n = be_bytes (pred_numeral k) (n div 256) @ [n mod 256]"
  by (simp add: numeral_eq_Suc)

lemma replicate_numeral: "replicate (numeral k) x = x # replicate (pred_numeral k) x"
  by (simp add: numeral_eq_Suc)

lemmas sha_eval = sha256hex_def hex_word_def hex_byte_def hexdigit_def utf8_def utf8_unit_def
  pad_def blocks.simps compress_def sha_round_def rotate_in_def T1_def T2_def next_w_def
  ssig0_def ssig1_def bsig0_def bsig1_def Ch_def Maj_def rotr_def add32_def K256_def H256_def
  schedule_numeral be_bytes_numeral replicate_numeral

lemma sha_body: "sha256hex ''Hello world''
    = ''64ec88ca00b268e5ba1a35678a1b5316d212f4f366b2477232534a8aeca37f3c''"
  by (simp add: sha_eval)

lemma sha_code_id:
  "sha256hex ''http://a.test/|64ec88ca00b268e5ba1a35678a1b5316d212f4f366b2477232534a8aeca37f3c''
    = ''8b7100c0960910d4a6365438e71eabd592a02d5ed1909f6d382483d0a043b484''"
  by (simp add: sha_eval)

lemma sha_spec_id:
  "sha256hex ''http://a.test/64ec88ca00b268e5ba1a35678a1b5316d212f4f366b2477232534a8aeca37f3c''
    = ''94d02916f39e65e5635d37b10c13f1504809535afc70480bf3b88587b5d3557b''"
  by (simp add: sha_eval)

section \<open>The handler on the sample requests\<close>

lemmas request_eval = or_default_def render_of_def raw_of_def target_words_of_def parseInt_def
  to_lower_def is_digit_def dec_value_def is_space_def

lemma sample_render: "render_of sample_request = True"
  by (simp add: sample_request_def request_eval)

lemma sample_raw: "raw_of sample_request = False"
  by (simp add: sample_request_def request_eval)

lemma sample_tw: "target_words_of sample_request = 1000"
  by (simp add: sample_request_def request_eval)

lemma raw_request_true: "raw_of (sample_request\<lparr>q_raw := Some ''true''\<rparr>) = True"
  by (simp add: sample_request_def request_eval)

lemma sample_url_request: "or_default (q_url sample_request) [] = sample_url"
  by (simp add: sample_request_def or_default_def sample_url_def)

lemma sample_build:
  "build_result sample_env sample_page sample_url 1000 sample_article
     = Inr (cached_json sample_entry)"
  by (simp add: sample_entry_def build_result_def sample_env_def Let_def final_or_def
        sample_page_def sample_url_def)

lemma sample_entry_md: "cached_md sample_entry = r_md (cached_json sample_entry)"
  by (simp add: sample_entry_def build_result_def sample_env_def Let_def final_or_def
        sample_page_def sample_url_def)

lemma sample_entry_eq:
  "\<lparr>cached_json = cached_json sample_entry, cached_md = r_md (cached_json sample_entry)\<rparr>
     = sample_entry"
  using sample_entry_md by (cases sample_entry) simp

lemma sample_extract:
  "extractMain e = (\<lambda>h u. Inr (Some sample_article)) \<Longrightarrow>
   extract_article e f u = Inr (Inr sample_article)"
  by (simp add: extract_article_def has_content_def sample_article_def Let_def)

section \<open>Paths through the handler\<close>

lemma fallback_throws:
  "extractMain e (html f) (final_or f u) = Inr a \<Longrightarrow> \<not> has_content a \<Longrightarrow>
   extract_article e f u = Inl ''Assignment to constant variable.''"
  by (simp add: extract_article_def Let_def)

lemma extract_article_cases:
  "(\<exists>err. extract_article e f u = Inl err) \<or> (\<exists>x. extract_article e f u = Inr (Inr x))"
  by (auto simp: extract_article_def Let_def has_content_def split: sum.splits option.splits)

lemma handler_hit:
  assumes u: "or_default (q_url req) [] = u" "u \<noteq> []" "hostname e u \<noteq> None"
    and polite: "politeToCrawl e u"
    and hit: "cacheGet s (cacheKey u (render_of req) (target_words_of req)) = Some c"
  shows "handler e req s = (respond (raw_of req) c, s)"
  using assms by (auto simp: handler_def scrape_def Let_def)


lemma scrape_ok:
  assumes "scrape e u r tw raw s = (Inr resp, s')" and "write_ok e (cacheKey u r tw)"
  shows "\<exists>c. cacheGet s' (cacheKey u r tw) = Some c \<and> resp = respond raw c"
proof (cases "cacheGet s (cacheKey u r tw)")
  case (Some c)
  with assms show ?thesis by (simp add: scrape_def Let_def)
next
  case None
  show ?thesis
  proof (cases "fetchPage e u r")
    case (Inl err)
    with None assms show ?thesis by (simp add: scrape_def Let_def)
  next
    case (Inr f)
    from extract_article_cases [of e f u] show ?thesis
    proof
      assume "\<exists>err. extract_article e f u = Inl err"
      with None Inr assms show ?thesis by (auto simp: scrape_def Let_def)
    next
      assume "\<exists>x. extract_article e f u = Inr (Inr x)"
      then obtain x where x: "extract_article e f u = Inr (Inr x)" by blast
      with None Inr assms show ?thesis
        by (cases "build_result e f u tw x")
           (auto simp: scrape_def Let_def cacheSet_def cacheGet_def)
    qed
  qed
qed

lemma handler_ok:
  assumes "handler e req s = (resp, s')" and "status_of resp = 200"
  shows "or_default (q_url req) [] \<noteq> []
       \<and> scrape e (or_default (q_url req) []) (render_of req) (target_words_of req) (raw_of req) s
           = (Inr resp, s')"
proof -
  let ?u = "or_default (q_url req) []"
  obtain x t where sc: "scrape e ?u (render_of req) (target_words_of req) (raw_of req) s = (x, t)"
    by (cases "scrape e ?u (render_of req) (target_words_of req) (raw_of req) s")
  with assms show ?thesis
    by (cases x) (auto simp: handler_def Let_def split: if_splits)
qed

lemma handler_statuses:
  "status_of (fst (handler e req s)) = 200 \<or> status_of (fst (handler e req s)) = 400
   \<or> status_of (fst (handler e req s)) = 403 \<or> status_of (fst (handler e req s)) = 500"
proof -
  let ?u = "or_default (q_url req) []"
  obtain x t where sc: "scrape e ?u (render_of req) (target_words_of req) (raw_of req) s = (x, t)"
    by (cases "scrape e ?u (render_of req) (target_words_of req) (raw_of req) s")
  show ?thesis
  proof (cases x)
    case (Inl err)
    with sc show ?thesis by (simp add: handler_def Let_def)
  next
    case (Inr resp)
    have "status_of resp = 200"
    proof (cases "cacheGet s (cacheKey ?u (render_of req) (target_words_of req))")
      case (Some c)
      with sc Inr show ?thesis by (auto simp: scrape_def Let_def respond_def)
    next
      case None
      show ?thesis
      proof (cases "fetchPage e ?u (render_of req)")
        case (Inl err)
        with None sc Inr show ?thesis by (simp add: scrape_def Let_def)
      next
        case f: (Inr f)
        from extract_article_cases [of e f ?u] show ?thesis
        proof
          assume "\<exists>err. extract_article e f ?u = Inl err"
          with None f sc Inr show ?thesis by (auto simp: scrape_def Let_def)
        next
          assume "\<exists>a. extract_article e f ?u = Inr (Inr a)"
          then obtain a where "extract_article e f ?u = Inr (Inr a)" by blast
          with None f sc Inr show ?thesis
            by (cases "build_result e f ?u (target_words_of req) a")
               (auto simp: scrape_def Let_def respond_def)
        qed
      qed
    qed
    with sc Inr show ?thesis by (simp add: handler_def Let_def)
  qed
qed

lemma fresh_scrape:
  assumes "fetchPage e = (\<lambda>u r. Inr sample_page)"
    and "extractMain e = (\<lambda>h u. Inr (Some sample_article))"
    and "build_result e sample_page sample_url 1000 sample_article = Inr (cached_json sample_entry)"
    and "cacheGet s (cacheKey sample_url True 1000) = None"
  shows "scrape e sample_url True 1000 raw s
      = (Inr (respond raw sample_entry),
         cacheSet e (cacheKey sample_url True 1000) sample_entry
           (s\<lparr>fetch_log := fetch_log s @ [(sample_url, True)]\<rparr>))"
  using assms
  by (simp add: scrape_def Let_def sample_extract sample_entry_eq)

lemma first_scrape:
  "handler sample_env sample_request empty_server
     = (Json 200 (cached_json sample_entry),
        \<lparr>cache = [cacheKey sample_url True 1000 \<mapsto> Entry sample_entry],
         fetch_log = [(sample_url, True)]\<rparr>)"
proof -
  have "scrape sample_env sample_url True 1000 False empty_server
      = (Inr (respond False sample_entry),
         cacheSet sample_env (cacheKey sample_url True 1000) sample_entry
           (empty_server\<lparr>fetch_log := fetch_log empty_server @ [(sample_url, True)]\<rparr>))"
    by (rule fresh_scrape)
       (simp_all add: sample_env_def sample_build [unfolded sample_env_def] cacheGet_def
          empty_server_def)
  then show ?thesis
    by (simp add: handler_def sample_url_request sample_render sample_raw sample_tw Let_def)
       (simp add: sample_env_def sample_url_def politeToCrawl_def cacheSet_def respond_def
          empty_server_def)
qed

lemma unwritable_scrape:
  "handler unwritable_env sample_request empty_server
     = (Json 200 (cached_json sample_entry),
        \<lparr>cache = Map.empty, fetch_log = [(sample_url, True)]\<rparr>)"
proof -
  have b: "build_result unwritable_env sample_page sample_url 1000 sample_article
             = Inr (cached_json sample_entry)"
    by (simp add: sample_entry_def build_result_def unwritable_env_def sample_env_def Let_def
          final_or_def sample_page_def sample_url_def)
  have "scrape unwritable_env sample_url True 1000 False empty_server
      = (Inr (respond False sample_entry),
         cacheSet unwritable_env (cacheKey sample_url True 1000) sample_entry
           (empty_server\<lparr>fetch_log := fetch_log empty_server @ [(sample_url, True)]\<rparr>))"
    by (rule fresh_scrape)
       (simp_all add: b, simp_all add: unwritable_env_def sample_env_def cacheGet_def empty_server_def)
  then show ?thesis
    by (simp add: handler_def sample_url_request sample_render sample_raw sample_tw Let_def)
       (simp add: unwritable_env_def sample_env_def sample_url_def politeToCrawl_def
          cacheSet_def respond_def empty_server_def)
qed


section \<open>The claims\<close>

lemmas chunk_eval = chunkMarkdown_def split_parts_def chunk_step_def pushCur_def word_count_def
  split_ws_def trim_def is_space_def slice_from_def Let_def

subsection \<open>C1: the overlap between consecutive chunks\<close>

text \<open>
  C1. When the chunker closes a chunk it should seed the next buffer with the last
  \<open>overlap_words\<close> words of the closed buffer, so that consecutive chunks share that
  text. The code calls \<^verbatim>\<open>pushCur()\<close>, which empties \<^verbatim>\<open>cur\<close>, before it computes the
  overlap from \<^verbatim>\<open>cur\<close>, so the overlap is always empty (\<open>overlap_empty\<close>,
  \<open>chunk_step_boundary\<close>). With a target of five words and an overlap of one word (the
  options the handler passes for \<^verbatim>\<open>target_words=5\<close>), the document \<^verbatim>\<open>a b c d e\<close>, blank
  line, \<^verbatim>\<open>f g\<close> gives a second chunk \<^verbatim>\<open>f g\<close> of two words: the word \<^verbatim>\<open>e\<close> that ends the
  first chunk is not repeated.
\<close>

theorem chunk_overlap_lost:
  "chunkMarkdown (''a b c d e'' @ [NL, NL] @ ''f g'') \<lparr>target_words = 5, overlap_words = 1\<rparr>
     = [\<lparr>chunk_index = 0, chunk_text = ''a b c d e'', approx_words = 5\<rparr>,
        \<lparr>chunk_index = 1, chunk_text = ''f g'', approx_words = 2\<rparr>]"
  by (simp add: chunk_eval)

subsection \<open>C2: the fallback to the document body\<close>

text \<open>
  C2. When Readability returns no article but the body has markup, the handler should
  go on with the title and the body of the document. The handler builds that fallback
  and assigns it to \<^verbatim>\<open>article\<close>, which line 263 declares with \<^verbatim>\<open>const\<close>: the assignment
  throws, the \<^verbatim>\<open>catch\<close> block answers 500, and no Markdown is produced
  (\<open>fallback_throws\<close> for every page). Here a page whose body is a rule inside a
  \<^verbatim>\<open>div\<close>, in which Readability finds nothing.
\<close>

theorem fallback_throws_for_body:
  "fst (handler no_article_env sample_request empty_server)
     = Error 500 ''Assignment to constant variable.''"
  by (simp add: handler_def sample_render sample_raw sample_tw scrape_def cacheGet_def
        empty_server_def no_article_env_def sample_env_def politeToCrawl_def
        extract_article_def has_content_def Let_def or_default_def sample_request_def)

subsection \<open>C3: nothing to extract\<close>

text \<open>
  C3. When the primary extraction and the fallback both give nothing, the handler
  should answer 422 with \<^verbatim>\<open>Could not extract content\<close>. The check that sends 422 comes
  after the assignment to the \<^verbatim>\<open>const\<close> variable, so it is never reached: the handler
  answers 500, and by \<open>handler_statuses\<close> it answers 422 for no request at all. Here a
  page whose body is empty.
\<close>

theorem empty_page_gives_500:
  "fst (handler empty_page_env sample_request empty_server)
     = Error 500 ''Assignment to constant variable.''"
  by (simp add: handler_def sample_render sample_raw sample_tw scrape_def cacheGet_def
        empty_server_def empty_page_env_def sample_env_def politeToCrawl_def
        extract_article_def has_content_def Let_def or_default_def sample_request_def)

subsection \<open>C4: content hash and identifier\<close>

text \<open>
  C4, as stated: the identifier is the fingerprint of the URL followed by the content
  hash. The code puts a \<^verbatim>\<open>|\<close> between the two before hashing. For the sample page
  the handler's identifier is the digest of \<^verbatim>\<open>http://a.test/|64ec...7f3c\<close>, which
  differs from the digest of \<^verbatim>\<open>http://a.test/64ec...7f3c\<close>.
\<close>

theorem id_has_separator:
  "fst (handler sample_env sample_request empty_server) = Json 200 (cached_json sample_entry)
   \<and> url (r_meta (cached_json sample_entry)) = ''http://a.test/''
   \<and> content_hash (r_meta (cached_json sample_entry))
       = ''64ec88ca00b268e5ba1a35678a1b5316d212f4f366b2477232534a8aeca37f3c''
   \<and> r_id (cached_json sample_entry)
       = ''8b7100c0960910d4a6365438e71eabd592a02d5ed1909f6d382483d0a043b484''
   \<and> id_spec (r_meta (cached_json sample_entry))
       = ''94d02916f39e65e5635d37b10c13f1504809535afc70480bf3b88587b5d3557b''
   \<and> r_id (cached_json sample_entry) \<noteq> id_spec (r_meta (cached_json sample_entry))"
proof -
  have u: "url (r_meta (cached_json sample_entry)) = ''http://a.test/''"
    by (simp add: sample_entry_def build_result_def sample_env_def Let_def final_or_def
          sample_page_def sample_url_def)
  have h: "content_hash (r_meta (cached_json sample_entry))
       = ''64ec88ca00b268e5ba1a35678a1b5316d212f4f366b2477232534a8aeca37f3c''"
    by (simp add: sample_entry_def build_result_def sample_env_def Let_def final_or_def
          sample_page_def sample_url_def sha_body)
  have "r_id (cached_json sample_entry)
          = sha256hex (url (r_meta (cached_json sample_entry)) @ ''|''
                       @ content_hash (r_meta (cached_json sample_entry)))"
    by (simp add: sample_entry_def build_result_def sample_env_def Let_def final_or_def
          sample_page_def sample_url_def)
  then have i: "r_id (cached_json sample_entry)
       = ''8b7100c0960910d4a6365438e71eabd592a02d5ed1909f6d382483d0a043b484''"
    by (simp add: u h sha_code_id)
  have s: "id_spec (r_meta (cached_json sample_entry))
       = ''94d02916f39e65e5635d37b10c13f1504809535afc70480bf3b88587b5d3557b''"
    by (simp add: id_spec_def u h sha_spec_id)
  show ?thesis by (simp add: first_scrape u h i s)
qed

text \<open>
  C4, amended: the content hash is the SHA-256 hex digest of the Markdown body, taken
  before the frontmatter is put in front of it; the identifier is the digest of the
  URL of the metadata, a \<^verbatim>\<open>|\<close> and the content hash. So two scrapes that extract the
  same Markdown from the same final URL have the same content hash and the same
  identifier, whatever the clock, the target size, the title or the fetch status.
\<close>

theorem content_identity:
  assumes "build_result e f u tw a = Inr r" and "build_result e' f' u' tw' a' = Inr r'"
    and "htmlToMarkdown e' (content a') = htmlToMarkdown e (content a)"
    and "final_or f' u' = final_or f u"
  shows "content_hash (r_meta r) = sha256hex (htmlToMarkdown e (content a))
       \<and> r_md r = addFrontmatter (htmlToMarkdown e (content a)) (r_meta r)
       \<and> url (r_meta r) = final_or f u
       \<and> r_id r = sha256hex (url (r_meta r) @ ''|'' @ content_hash (r_meta r))
       \<and> content_hash (r_meta r') = content_hash (r_meta r)
       \<and> r_id r' = r_id r"
  using assms by (auto simp: build_result_def Let_def split: option.splits)

theorem content_identity_witness:
  "build_result sample_env sample_page sample_url 1000 sample_article
     = Inr (cached_json sample_entry)
   \<and> build_result later_env sample_page sample_url 500 sample_article
     = Inr (projr (build_result later_env sample_page sample_url 500 sample_article))
   \<and> htmlToMarkdown later_env (content sample_article)
     = htmlToMarkdown sample_env (content sample_article)
   \<and> crawled_at (r_meta (projr (build_result later_env sample_page sample_url 500 sample_article)))
     \<noteq> crawled_at (r_meta (cached_json sample_entry))
   \<and> content_hash (r_meta (projr (build_result later_env sample_page sample_url 500 sample_article)))
     = content_hash (r_meta (cached_json sample_entry))
   \<and> r_id (projr (build_result later_env sample_page sample_url 500 sample_article))
     = r_id (cached_json sample_entry)"
proof -
  let ?r' = "projr (build_result later_env sample_page sample_url 500 sample_article)"
  have b': "build_result later_env sample_page sample_url 500 sample_article = Inr ?r'"
    by (simp add: build_result_def later_env_def sample_env_def Let_def final_or_def
          sample_page_def sample_url_def)
  have m: "htmlToMarkdown later_env (content sample_article)
             = htmlToMarkdown sample_env (content sample_article)"
    by (simp add: later_env_def sample_env_def)
  have t: "crawled_at (r_meta ?r') \<noteq> crawled_at (r_meta (cached_json sample_entry))"
    by (simp add: sample_entry_def build_result_def later_env_def sample_env_def Let_def
          final_or_def sample_page_def sample_url_def)
  from content_identity [OF sample_build b' m refl] b' m t sample_build
  show ?thesis by simp
qed

subsection \<open>C5: a cache hit\<close>




subsection \<open>C6: the size of a chunk\<close>




subsection \<open>C7: the frontmatter block\<close>

text \<open>
  C7, as stated: all six fields are escaped, and the block is followed by a blank line
  and the body. The code escapes the title and the excerpt only, and the body starts
  on the line right after the closing \<^verbatim>\<open>---\<close>. With a URL that carries double quotes
  the output differs from the composer of the specification in both respects.
\<close>

theorem frontmatter_not_as_specified:
  "addFrontmatter ''# Body'' quoted_meta =
     ''---'' @ [NL]
     @ ''title: '' @ [DQ] @ ''a'' @ [BSL, DQ] @ ''b c'' @ [DQ, NL]
     @ ''url: '' @ [DQ] @ ''http://a.test/?q='' @ [DQ] @ ''x'' @ [DQ] @ [DQ, NL]
     @ ''domain: '' @ [DQ] @ ''a.test'' @ [DQ, NL]
     @ ''crawled_at: '' @ [DQ] @ ''2025-01-01T00:00:00.000Z'' @ [DQ, NL]
     @ ''content_hash: '' @ [DQ]
         @ ''64ec88ca00b268e5ba1a35678a1b5316d212f4f366b2477232534a8aeca37f3c'' @ [DQ, NL]
     @ ''excerpt: '' @ [DQ] @ [DQ, NL]
     @ ''---'' @ [NL]
     @ ''# Body''
   \<and> compose_spec ''# Body'' quoted_meta =
     ''---'' @ [NL]
     @ ''title: '' @ [DQ] @ ''a'' @ [BSL, DQ] @ ''b c'' @ [DQ, NL]
     @ ''url: '' @ [DQ] @ ''http://a.test/?q='' @ [BSL, DQ] @ ''x'' @ [BSL, DQ] @ [DQ, NL]
     @ ''domain: '' @ [DQ] @ ''a.test'' @ [DQ, NL]
     @ ''crawled_at: '' @ [DQ] @ ''2025-01-01T00:00:00.000Z'' @ [DQ, NL]
     @ ''content_hash: '' @ [DQ]
         @ ''64ec88ca00b268e5ba1a35678a1b5316d212f4f366b2477232534a8aeca37f3c'' @ [DQ, NL]
     @ ''excerpt: '' @ [DQ] @ [DQ, NL]
     @ ''---'' @ [NL] @ [NL]
     @ ''# Body''
   \<and> addFrontmatter ''# Body'' quoted_meta \<noteq> compose_spec ''# Body'' quoted_meta"
  by (simp add: addFrontmatter_def compose_spec_def quoted_def escape_def quoted_meta_def)

text \<open>
  C7, amended: the block is the opening \<^verbatim>\<open>---\<close>, the fields title, url, domain,
  crawled_at, content_hash and excerpt in this order, each on its own line between
  double quotes, and the closing \<^verbatim>\<open>---\<close>; the body follows on the next line. The title
  and the excerpt are escaped, the other four fields are copied as they are. Escaping
  puts a backslash before every double quote and turns every line feed into one space,
  so an escaped value has no line feed and each of its double quotes follows a
  backslash.
\<close>

theorem frontmatter_layout:
  "addFrontmatter b m =
     ''---'' @ [NL]
     @ ''title: '' @ [DQ] @ escape (title m) @ [DQ, NL]
     @ ''url: '' @ [DQ] @ url m @ [DQ, NL]
     @ ''domain: '' @ [DQ] @ domain m @ [DQ, NL]
     @ ''crawled_at: '' @ [DQ] @ crawled_at m @ [DQ, NL]
     @ ''content_hash: '' @ [DQ] @ content_hash m @ [DQ, NL]
     @ ''excerpt: '' @ [DQ] @ escape (excerpt m) @ [DQ, NL]
     @ ''---'' @ [NL]
     @ b
   \<and> escape s = concat (map (\<lambda>c. if c = DQ then [BSL, DQ]
                                    else if c = NL then '' '' else [c]) s)
   \<and> NL \<notin> set (escape s)
   \<and> (\<forall>i<length (escape s). escape s ! i = DQ \<longrightarrow> 0 < i \<and> escape s ! (i - 1) = BSL)"
  using addFrontmatter_layout [of b m] escape_fused [of s] escape_no_NL [of s] escape_quotes [of _ s]
  by blast

theorem frontmatter_layout_witness:
  "(3::nat) < length (escape (title quoted_meta))
   \<and> escape (title quoted_meta) ! 2 = DQ
   \<and> escape (title quoted_meta) ! 1 = BSL
   \<and> escape (title quoted_meta) = ''a'' @ [BSL, DQ] @ ''b c''
   \<and> NL \<notin> set (escape (title quoted_meta))"
proof -
  have v: "escape (title quoted_meta) = ''a'' @ [BSL, DQ] @ ''b c''"
    by (simp add: quoted_meta_def escape_def)
  have "(2::nat) < length (escape (title quoted_meta))" "escape (title quoted_meta) ! 2 = DQ"
    by (simp_all add: v)
  with frontmatter_layout [of "[]" quoted_meta "title quoted_meta"]
  have "escape (title quoted_meta) ! (2 - 1) = BSL \<and> NL \<notin> set (escape (title quoted_meta))"
    by blast
  then show ?thesis by (simp add: v)
qed

subsection \<open>C8: the overlap passed to the chunker\<close>


subsection \<open>C9: a result always has a chunk\<close>

text \<open>
  C9. The frontmatter is never blank, so the chunker emits at least one chunk for every
  Markdown body, the empty one included, and every result that the handler builds has
  a chunk. The last buffer of the chunker is not blank either when the body is empty
  or ends in a character that is not white space, as every output of Turndown does.
\<close>

theorem frontmatter_always_chunked:
  "chunkMarkdown (addFrontmatter b m) opt \<noteq> []
   \<and> (build_result e f u tw a = Inr r \<longrightarrow> r_chunks r \<noteq> [])
   \<and> (b = [] \<or> \<not> is_space (last b) \<longrightarrow>
        trim (cur (foldl (chunk_step opt) \<lparr>chunks = [], cur = [], curWords = 0\<rparr>
                     (split_parts (addFrontmatter b m)))) \<noteq> [])"
proof -
  have "chunkMarkdown (addFrontmatter b m) opt \<noteq> []"
    using addFrontmatter_nonblank by (rule chunkMarkdown_emits)
  moreover have "build_result e f u tw a = Inr r \<longrightarrow> r_chunks r \<noteq> []"
    using addFrontmatter_nonblank [THEN chunkMarkdown_emits]
    by (auto simp: build_result_def Let_def split: option.splits)
  moreover have "b = [] \<or> \<not> is_space (last b) \<longrightarrow>
        trim (cur (foldl (chunk_step opt) \<lparr>chunks = [], cur = [], curWords = 0\<rparr>
                     (split_parts (addFrontmatter b m)))) \<noteq> []"
    using frontmatter_last_part [of b m] final_buffer_nonblank by blast
  ultimately show ?thesis by blast
qed

theorem frontmatter_always_chunked_witness:
  "build_result sample_env sample_page sample_url 1000 sample_article
     = Inr (cached_json sample_entry)
   \<and> r_chunks (cached_json sample_entry) \<noteq> []
   \<and> chunkMarkdown (addFrontmatter [] quoted_meta) (chunk_opts 1000) \<noteq> []
   \<and> trim (cur (foldl (chunk_step (chunk_opts 1000)) \<lparr>chunks = [], cur = [], curWords = 0\<rparr>
                   (split_parts (addFrontmatter [] quoted_meta)))) \<noteq> []"
proof -
  have b: "build_result sample_env sample_page sample_url 1000 sample_article
     = Inr (cached_json sample_entry)"
    by (simp add: sample_entry_def build_result_def sample_env_def Let_def final_or_def
          sample_page_def sample_url_def)
  from frontmatter_always_chunked
         [of "[]" quoted_meta "chunk_opts 1000" sample_env sample_page sample_url 1000
             sample_article "cached_json sample_entry"] b
  show ?thesis by simp
qed

subsection \<open>C10: the raw flag and the cache\<close>

text \<open>
  C10, as stated: of any two requests that differ in \<^verbatim>\<open>raw\<close> only, the second is served
  from the entry that the first has written. The first request of the sample page
  succeeds and writes its entry, yet the second is answered 403 once the robots file
  disallows the page; and when the cache directory cannot be written the first request
  still succeeds, no entry exists, and the second request fetches the page again.
\<close>

theorem raw_entry_not_always_served:
  "fst (handler sample_env sample_request empty_server) = Json 200 (cached_json sample_entry)
   \<and> cacheGet (snd (handler sample_env sample_request empty_server))
         (cacheKey sample_url True 1000) = Some sample_entry
   \<and> fst (handler blocked_env (sample_request\<lparr>q_raw := Some ''true''\<rparr>)
            (snd (handler sample_env sample_request empty_server)))
       = Error 403 ''Blocked by robots.txt''
   \<and> fst (handler unwritable_env sample_request empty_server)
       = Json 200 (cached_json sample_entry)
   \<and> fetch_log (snd (handler sample_env (sample_request\<lparr>q_raw := Some ''true''\<rparr>)
                        (snd (handler unwritable_env sample_request empty_server))))
       = [(sample_url, True), (sample_url, True)]"
proof -
  have blocked: "fst (handler blocked_env (sample_request\<lparr>q_raw := Some ''true''\<rparr>) s)
                   = Error 403 ''Blocked by robots.txt''" for s
    by (simp add: handler_def blocked_env_def sample_env_def politeToCrawl_def Let_def
          or_default_def sample_request_def)
  have u: "or_default (q_url (sample_request\<lparr>q_raw := Some ''true''\<rparr>)) [] = sample_url"
    by (simp add: sample_request_def or_default_def sample_url_def)
  have r: "render_of (sample_request\<lparr>q_raw := Some ''true''\<rparr>) = True"
    by (simp add: sample_request_def request_eval)
  have t: "target_words_of (sample_request\<lparr>q_raw := Some ''true''\<rparr>) = 1000"
    by (simp add: sample_request_def request_eval)
  have "scrape sample_env sample_url True 1000 True
          \<lparr>cache = Map.empty, fetch_log = [(sample_url, True)]\<rparr>
      = (Inr (respond True sample_entry),
         cacheSet sample_env (cacheKey sample_url True 1000) sample_entry
           (\<lparr>cache = Map.empty, fetch_log = [(sample_url, True)]\<rparr>
              \<lparr>fetch_log := fetch_log \<lparr>cache = Map.empty, fetch_log = [(sample_url, True)]\<rparr>
                               @ [(sample_url, True)]\<rparr>))"
    by (rule fresh_scrape)
       (simp_all add: sample_env_def sample_build [unfolded sample_env_def] cacheGet_def)
  then have again: "fetch_log (snd (handler sample_env (sample_request\<lparr>q_raw := Some ''true''\<rparr>)
                      \<lparr>cache = Map.empty, fetch_log = [(sample_url, True)]\<rparr>))
                    = [(sample_url, True), (sample_url, True)]"
    by (simp add: handler_def u r t raw_request_true sample_url_request Let_def)
       (simp add: sample_env_def sample_url_def politeToCrawl_def cacheSet_def)
  show ?thesis
    by (simp add: first_scrape unwritable_scrape blocked again cacheGet_def)
qed

text \<open>
  C10, amended: the cache key does not depend on \<^verbatim>\<open>raw\<close>, and an entry holds the JSON
  result and the Markdown. When a request is answered 200 and its cache file could be
  written, the cache holds an entry for its key of which the answer is the \<^verbatim>\<open>raw\<close>
  view; a following request that differs in \<^verbatim>\<open>raw\<close> only, and that the robots check
  allows, is answered from that entry without a fetch: the Markdown for \<^verbatim>\<open>raw=true\<close>,
  the JSON otherwise.
\<close>

theorem raw_shares_entry:
  assumes first: "handler e1 req1 s0 = (resp1, s1)" "status_of resp1 = 200"
    and wr: "write_ok e1 (cacheKey (or_default (q_url req1) []) (render_of req1) (target_words_of req1))"
    and second: "hostname e2 (or_default (q_url req1) []) \<noteq> None"
                "politeToCrawl e2 (or_default (q_url req1) [])"
  shows "\<exists>c. cacheGet s1 (cacheKey (or_default (q_url req1) []) (render_of req1) (target_words_of req1))
               = Some c
            \<and> resp1 = respond (raw_of req1) c
            \<and> handler e2 (req1\<lparr>q_raw := raw2\<rparr>) s1 = (respond (raw_of (req1\<lparr>q_raw := raw2\<rparr>)) c, s1)"
proof -
  let ?u = "or_default (q_url req1) []"
  let ?req2 = "req1\<lparr>q_raw := raw2\<rparr>"
  from handler_ok [OF first] have u: "?u \<noteq> []"
    and sc: "scrape e1 ?u (render_of req1) (target_words_of req1) (raw_of req1) s0 = (Inr resp1, s1)"
    by blast+
  from scrape_ok [OF sc wr] obtain c
    where c: "cacheGet s1 (cacheKey ?u (render_of req1) (target_words_of req1)) = Some c"
             "resp1 = respond (raw_of req1) c"
    by blast
  have same: "or_default (q_url ?req2) [] = ?u" "render_of ?req2 = render_of req1"
      "target_words_of ?req2 = target_words_of req1"
    by (simp_all add: render_of_def target_words_of_def)
  have "handler e2 ?req2 s1 = (respond (raw_of ?req2) c, s1)"
    using handler_hit [of ?req2 ?u e2 s1 c] same u second c(1) by simp
  with c show ?thesis by blast
qed

theorem raw_shares_entry_witness:
  "handler sample_env sample_request empty_server
     = (Json 200 (cached_json sample_entry),
        \<lparr>cache = [cacheKey sample_url True 1000 \<mapsto> Entry sample_entry],
         fetch_log = [(sample_url, True)]\<rparr>)
   \<and> status_of (Json 200 (cached_json sample_entry)) = 200
   \<and> write_ok sample_env
        (cacheKey (or_default (q_url sample_request) []) (render_of sample_request)
           (target_words_of sample_request))
   \<and> hostname sample_env (or_default (q_url sample_request) []) \<noteq> None
   \<and> politeToCrawl sample_env (or_default (q_url sample_request) [])
   \<and> handler sample_env (sample_request\<lparr>q_raw := Some ''true''\<rparr>)
        \<lparr>cache = [cacheKey sample_url True 1000 \<mapsto> Entry sample_entry],
         fetch_log = [(sample_url, True)]\<rparr>
      = (Markdown 200 (cached_md sample_entry),
         \<lparr>cache = [cacheKey sample_url True 1000 \<mapsto> Entry sample_entry],
          fetch_log = [(sample_url, True)]\<rparr>)"
proof -
  let ?s1 = "\<lparr>cache = [cacheKey sample_url True 1000 \<mapsto> Entry sample_entry],
              fetch_log = [(sample_url, True)]\<rparr>"
  have st: "status_of (Json 200 (cached_json sample_entry)) = 200" by simp
  have wr: "write_ok sample_env
        (cacheKey (or_default (q_url sample_request) []) (render_of sample_request)
           (target_words_of sample_request))"
    by (simp add: sample_env_def)
  have h: "hostname sample_env (or_default (q_url sample_request) []) \<noteq> None"
    by (simp add: sample_url_request) (simp add: sample_env_def sample_url_def)
  have p: "politeToCrawl sample_env (or_default (q_url sample_request) [])"
    by (simp add: politeToCrawl_def sample_env_def)
  have key: "cacheGet ?s1 (cacheKey (or_default (q_url sample_request) [])
               (render_of sample_request) (target_words_of sample_request)) = Some sample_entry"
    by (simp add: sample_url_request sample_render sample_tw cacheGet_def)
  from raw_shares_entry [OF first_scrape st wr h p, of "Some ''true''"] key
  have "handler sample_env (sample_request\<lparr>q_raw := Some ''true''\<rparr>) ?s1
          = (respond (raw_of (sample_request\<lparr>q_raw := Some ''true''\<rparr>)) sample_entry, ?s1)"
    by auto
  then have "handler sample_env (sample_request\<lparr>q_raw := Some ''true''\<rparr>) ?s1
          = (Markdown 200 (cached_md sample_entry), ?s1)"
    by (simp add: raw_request_true respond_def)
  with first_scrape st wr h p show ?thesis by blast
qed

end
